theory Spec2Isabelle
  imports Main "HOL-Library.AList"
begin

section \<open>Python values\<close>

text \<open>
  A Python \<open>str\<close> is modelled as a \<open>string\<close>: one \<open>char\<close> per code point, for the
  code points below 256 (Latin-1), so that \<open>length\<close> is Python's \<open>len\<close>. The middle dot
  of the snippet separator is the code point 0xB7.

  A search result is what \<open>response.json()\<close> produces: a JSON value. Python's \<open>None\<close> is
  \<open>JNull\<close>; a \<open>dict\<close> is an association list read with \<open>map_of\<close> and written with
  \<open>AList.update\<close> (an existing key keeps its place, a new key goes last). Of a number the
  code only ever looks at its truth value and its type, so numbers are integers.
\<close>

datatype json =
    JNull
  | JBool bool
  | JNum int
  | JStr string
  | JArr "json list"
  | JObj "(string \<times> json) list"

datatype py_exn = AttributeError | TypeError | KeyError | IndexError

text \<open>Truth value of a value, as \<open>if x\<close> and \<open>not x\<close> test it.\<close>

fun truthy :: "json \<Rightarrow> bool" where
  "truthy JNull = False"
| "truthy (JBool b) = b"
| "truthy (JNum n) = (n \<noteq> 0)"
| "truthy (JStr s) = (s \<noteq> [])"
| "truthy (JArr xs) = (xs \<noteq> [])"
| "truthy (JObj kvs) = (kvs \<noteq> [])"

text \<open>\<open>d.get(k, default)\<close> on a dict.\<close>

definition dict_get :: "(string \<times> json) list \<Rightarrow> string \<Rightarrow> json \<Rightarrow> json" where
  "dict_get kvs k dflt = (case map_of kvs k of None \<Rightarrow> dflt | Some v \<Rightarrow> v)"

text \<open>\<open>x.get(k, default)\<close> on any value: only a dict has the method.\<close>

fun py_get :: "json \<Rightarrow> string \<Rightarrow> json \<Rightarrow> py_exn + json" where
  "py_get (JObj kvs) k dflt = Inr (dict_get kvs k dflt)"
| "py_get _ k dflt = Inl AttributeError"

section \<open>String operations of the Python library\<close>

fun is_prefix :: "string \<Rightarrow> string \<Rightarrow> bool" where
  "is_prefix [] s = True"
| "is_prefix (p # ps) [] = False"
| "is_prefix (p # ps) (c # cs) = (p = c \<and> is_prefix ps cs)"

text \<open>\<open>sub in s\<close> for two strings.\<close>

fun contains :: "string \<Rightarrow> string \<Rightarrow> bool" where
  "contains sub [] = (sub = [])"
| "contains sub (c # cs) = (is_prefix sub (c # cs) \<or> contains sub cs)"

text \<open>
  \<open>s.replace(old, new)\<close>: the occurrences of \<open>old\<close> are found from the left and do not
  overlap. The source only calls it with a non-empty \<open>old\<close>; for an empty one this
  function leaves \<open>s\<close> as it is.
\<close>

function py_replace :: "string \<Rightarrow> string \<Rightarrow> string \<Rightarrow> string" where
  "py_replace old new [] = []"
| "py_replace old new (c # cs) =
     (if old \<noteq> [] \<and> is_prefix old (c # cs)
      then new @ py_replace old new (drop (length old) (c # cs))
      else c # py_replace old new cs)"
  by pat_completeness auto
termination
  by (relation "measure (\<lambda>(old, new, s). length s)") auto

text \<open>
  \<open>s.split(sep)\<close> with a separator: the result is never empty, and \<open>''.split(sep)\<close> is
  \<open>['']\<close>. The source only calls it with a non-empty \<open>sep\<close>.
\<close>

function py_split :: "string \<Rightarrow> string \<Rightarrow> string list" where
  "py_split sep [] = [[]]"
| "py_split sep (c # cs) =
     (if sep \<noteq> [] \<and> is_prefix sep (c # cs)
      then [] # py_split sep (drop (length sep) (c # cs))
      else (case py_split sep cs of
              [] \<Rightarrow> [[c]]
            | seg # segs \<Rightarrow> (c # seg) # segs))"
  by pat_completeness auto
termination
  by (relation "measure (\<lambda>(sep, s). length s)") auto

text \<open>
  The white space of \<open>str.strip()\<close>, \<open>str.split()\<close> and of \<open>\s\<close> in a \<open>str\<close> pattern,
  among the code points below 256: 9 to 13, 28 to 32, 0x85 and 0xA0.
\<close>

definition is_space :: "char \<Rightarrow> bool" where
  "is_space c =
     (let n = (of_char c :: nat)
      in (9 \<le> n \<and> n \<le> 13) \<or> (28 \<le> n \<and> n \<le> 32) \<or> n = 133 \<or> n = 160)"

definition strip :: "string \<Rightarrow> string" where
  "strip s = rev (dropWhile is_space (rev (dropWhile is_space s)))"

text \<open>\<open>s.split()\<close> with no separator: the maximal runs of non-space characters.\<close>

fun split_ws :: "string \<Rightarrow> string list" where
  "split_ws [] = []"
| "split_ws (c # cs) =
     (if is_space c then split_ws cs
      else if cs = [] \<or> is_space (hd cs) then [c] # split_ws cs
      else (case split_ws cs of
              [] \<Rightarrow> [[c]]
            | w # ws \<Rightarrow> (c # w) # ws))"

text \<open>\<open>sep.join(xs)\<close>.\<close>

fun join :: "string \<Rightarrow> string list \<Rightarrow> string" where
  "join sep [] = []"
| "join sep [x] = x"
| "join sep (x # y # ys) = x @ sep @ join sep (y # ys)"

text \<open>\<open>s.lower()\<close> on the code points below 256.\<close>

definition lower_char :: "char \<Rightarrow> char" where
  "lower_char c =
     (let n = (of_char c :: nat)
      in if (65 \<le> n \<and> n \<le> 90) \<or> (192 \<le> n \<and> n \<le> 222 \<and> n \<noteq> 215)
         then char_of (n + 32) else c)"

definition lower :: "string \<Rightarrow> string" where
  "lower s = map lower_char s"

text \<open>
  \<open>re.sub(r'^(Dr\.?|Mr\.?|Ms\.?|Mrs\.?)\s+', '', name)\<close>. The pattern is anchored at the
  start of the string, so there is at most one match. An alternative matches when the
  honorific is a prefix, followed by an optional period (tried first with the period,
  then without), followed by at least one white-space character; \<open>\s+\<close> is greedy and
  takes the whole run. The alternatives are tried in the order of the pattern.
\<close>

definition match_spaces :: "string \<Rightarrow> string option" where
  "match_spaces s =
     (case s of
        [] \<Rightarrow> None
      | c # cs \<Rightarrow> if is_space c then Some (dropWhile is_space cs) else None)"

definition match_honorific :: "string \<Rightarrow> string \<Rightarrow> string option" where
  "match_honorific h s =
     (if is_prefix h s
      then (let r = drop (length h) s
            in case (if is_prefix ''.'' r then match_spaces (drop 1 r) else None) of
                 Some t \<Rightarrow> Some t
               | None \<Rightarrow> match_spaces r)
      else None)"

fun sub_honorific_from :: "string list \<Rightarrow> string \<Rightarrow> string" where
  "sub_honorific_from [] s = s"
| "sub_honorific_from (h # hs) s =
     (case match_honorific h s of
        Some t \<Rightarrow> t
      | None \<Rightarrow> sub_honorific_from hs s)"

definition sub_honorific :: "string \<Rightarrow> string" where
  "sub_honorific s = sub_honorific_from [''Dr'', ''Mr'', ''Ms'', ''Mrs''] s"

section \<open>LinkedInProfileExtractor\<close>

definition linkedin_suffix :: string where
  "linkedin_suffix = '' | LinkedIn''"

definition dash :: string where
  "dash = '' - ''"

definition middle_dot :: string where
  "middle_dot = [CHR '' '', CHR 0xB7, CHR '' '']"

definition not_available :: string where
  "not_available = ''N/A''"

text \<open>
  \<open>_extract_name_from_title\<close>. The argument is whatever the result holds under
  \<open>title\<close>; a value that is not a string and is not falsy has no \<open>replace\<close>. The list
  that \<open>split\<close> returns is never empty, so the last \<open>return\<close> of the source, the
  \<open>[]\<close> case below, is never reached.
\<close>

definition extract_name_from_title :: "json \<Rightarrow> py_exn + string" where
  "extract_name_from_title title =
     (if \<not> truthy title then Inr not_available
      else (case title of
              JStr t \<Rightarrow>
                (let t' = py_replace linkedin_suffix [] t;
                     parts = py_split dash t'
                 in (case parts of
                       p # _ \<Rightarrow> Inr (sub_honorific (strip p))
                     | [] \<Rightarrow> Inr (strip t')))
            | _ \<Rightarrow> Inl AttributeError))"

text \<open>\<open>sub in x\<close> for a string \<open>sub\<close> and any value \<open>x\<close>.\<close>

fun py_in :: "string \<Rightarrow> json \<Rightarrow> py_exn + bool" where
  "py_in sub (JStr s) = Inr (contains sub s)"
| "py_in sub (JArr xs) = Inr (JStr sub \<in> set xs)"
| "py_in sub (JObj kvs) = Inr (sub \<in> fst ` set kvs)"
| "py_in sub _ = Inl TypeError"

definition job_keywords :: "string list" where
  "job_keywords = [''manager'', ''director'', ''engineer'', ''analyst'', ''specialist'',
               ''coordinator'', ''executive'', ''consultant'', ''senior'', ''lead'']"

text \<open>The first attempt of \<open>_extract_title_from_content\<close>: \<open>Some\<close> is its \<open>return\<close>.\<close>

definition title_from_title :: "json \<Rightarrow> py_exn + string option" where
  "title_from_title title =
     (case py_in dash title of
        Inl e \<Rightarrow> Inl e
      | Inr False \<Rightarrow> Inr None
      | Inr True \<Rightarrow>
          (case title of
             JStr t \<Rightarrow>
               (let parts = py_split dash t
                in if length parts > 1
                   then (let professional_title = strip (py_replace linkedin_suffix [] (parts ! 1))
                         in if professional_title \<noteq> [] then Inr (Some professional_title)
                            else Inr None)
                   else Inr None)
           | _ \<Rightarrow> Inl AttributeError))"

text \<open>The loop over the snippet's segments: the first stripped one with a keyword.\<close>

fun first_keyword_line :: "string list \<Rightarrow> string option" where
  "first_keyword_line [] = None"
| "first_keyword_line (l # ls) =
     (let line = strip l
      in if list_ex (\<lambda>kw. contains kw (lower line)) job_keywords then Some line
         else first_keyword_line ls)"

definition title_from_snippet :: "json \<Rightarrow> py_exn + string" where
  "title_from_snippet snippet =
     (case snippet of
        JStr s \<Rightarrow>
          (case first_keyword_line (py_split middle_dot s) of
             Some line \<Rightarrow> Inr line
           | None \<Rightarrow>
               (let first_line = (if s \<noteq> [] then strip (hd (py_split ''.'' s)) else [])
                in Inr (if first_line \<noteq> [] then first_line else not_available)))
      | _ \<Rightarrow> Inl AttributeError)"

definition extract_title_from_content :: "json \<Rightarrow> json \<Rightarrow> py_exn + string" where
  "extract_title_from_content title snippet =
     (case title_from_title title of
        Inl e \<Rightarrow> Inl e
      | Inr (Some t) \<Rightarrow> Inr t
      | Inr None \<Rightarrow> title_from_snippet snippet)"

text \<open>\<open>x[k]\<close> with a string key, and \<open>x[0]\<close>. The keys of a JSON object are strings.\<close>

fun py_getitem_str :: "json \<Rightarrow> string \<Rightarrow> py_exn + json" where
  "py_getitem_str (JObj kvs) k = (case map_of kvs k of None \<Rightarrow> Inl KeyError | Some v \<Rightarrow> Inr v)"
| "py_getitem_str _ k = Inl TypeError"

fun py_getitem_0 :: "json \<Rightarrow> py_exn + json" where
  "py_getitem_0 (JArr []) = Inl IndexError"
| "py_getitem_0 (JArr (x # xs)) = Inr x"
| "py_getitem_0 (JStr []) = Inl IndexError"
| "py_getitem_0 (JStr (c # cs)) = Inr (JStr [c])"
| "py_getitem_0 (JObj kvs) = Inl KeyError"
| "py_getitem_0 _ = Inl TypeError"

text \<open>
  One of the two attempts of \<open>_extract_image_url\<close>:
  \<open>if key in pagemap and pagemap[key]: return pagemap[key][0].get(field, '')\<close>.
  \<open>Some\<close> is the value returned, \<open>None\<close> means the condition was false.
\<close>

definition first_entry_field :: "json \<Rightarrow> string \<Rightarrow> string \<Rightarrow> py_exn + json option" where
  "first_entry_field pagemap key field =
     (case py_in key pagemap of
        Inl e \<Rightarrow> Inl e
      | Inr False \<Rightarrow> Inr None
      | Inr True \<Rightarrow>
          (case py_getitem_str pagemap key of
             Inl e \<Rightarrow> Inl e
           | Inr v \<Rightarrow>
               if \<not> truthy v then Inr None
               else (case py_getitem_0 v of
                       Inl e \<Rightarrow> Inl e
                     | Inr entry \<Rightarrow>
                         (case py_get entry field (JStr []) of
                            Inl e \<Rightarrow> Inl e
                          | Inr r \<Rightarrow> Inr (Some r)))))"

definition image_try :: "(string \<times> json) list \<Rightarrow> py_exn + json option" where
  "image_try search_result =
     (let pagemap = dict_get search_result ''pagemap'' (JObj [])
      in case first_entry_field pagemap ''cse_image'' ''src'' of
           Inl e \<Rightarrow> Inl e
         | Inr (Some r) \<Rightarrow> Inr (Some r)
         | Inr None \<Rightarrow> first_entry_field pagemap ''metatags'' ''og:image'')"

text \<open>\<open>except (KeyError, IndexError, TypeError): pass\<close>; any other exception goes on.\<close>

definition extract_image_url :: "(string \<times> json) list \<Rightarrow> py_exn + json" where
  "extract_image_url search_result =
     (case image_try search_result of
        Inl e \<Rightarrow> if e \<in> {KeyError, IndexError, TypeError} then Inr (JStr []) else Inl e
      | Inr (Some r) \<Rightarrow> Inr r
      | Inr None \<Rightarrow> Inr (JStr []))"

definition clean_text :: "string \<Rightarrow> string" where
  "clean_text s = join '' '' (split_ws (py_replace ''&nbsp;'' '' '' (py_replace ''&amp;'' ''&'' s)))"

definition clean_description :: "json \<Rightarrow> py_exn + string" where
  "clean_description snippet =
     (if \<not> truthy snippet then Inr not_available
      else (case snippet of
              JStr s \<Rightarrow>
                (let c = clean_text s
                 in Inr (if length c > 300 then take 300 c @ ''...'' else c))
            | _ \<Rightarrow> Inl AttributeError))"

text \<open>
  The dict that \<open>extract_profile_info\<close> returns. \<open>name\<close>, \<open>title\<close> and \<open>description\<close> are
  built by string operations; \<open>link\<close> and \<open>image\<close> are values read from the result.
\<close>

record profile =
  name :: string
  title :: string
  link :: json
  description :: string
  image :: json

definition extract_profile_info :: "(string \<times> json) list \<Rightarrow> py_exn + profile" where
  "extract_profile_info search_result =
     (let title_text = dict_get search_result ''title'' (JStr [])
      in case extract_name_from_title title_text of
           Inl e \<Rightarrow> Inl e
         | Inr n \<Rightarrow>
        (case extract_title_from_content title_text (dict_get search_result ''snippet'' (JStr [])) of
           Inl e \<Rightarrow> Inl e
         | Inr professional_title \<Rightarrow>
        (case extract_image_url search_result of
           Inl e \<Rightarrow> Inl e
         | Inr image_url \<Rightarrow>
        (case clean_description (dict_get search_result ''snippet'' (JStr [])) of
           Inl e \<Rightarrow> Inl e
         | Inr d \<Rightarrow>
             Inr \<lparr>name = n, title = professional_title,
                  link = dict_get search_result ''link'' (JStr []),
                  description = d, image = image_url\<rparr>))))"

section \<open>GoogleSearchAPI\<close>

text \<open>
  What \<open>requests.get\<close>, \<open>raise_for_status\<close> and \<open>response.json()\<close> do for one request:
  a transport failure, a body that does not decode, or the decoded body. Within one run
  every start index is requested at most once, so the service is a function of the start
  index (the query, the credentials and the extra parameters are fixed for the run).
\<close>

datatype transport = RequestException | JSONDecodeError | Body json

type_synonym api = "int \<Rightarrow> transport"

definition results_per_page :: int where
  "results_per_page = 10"

text \<open>\<open>_make_request\<close>: both exceptions are caught there and \<open>None\<close> is returned.\<close>

definition make_request :: "api \<Rightarrow> int \<Rightarrow> json" where
  "make_request service start =
     (case service start of
        RequestException \<Rightarrow> JNull
      | JSONDecodeError \<Rightarrow> JNull
      | Body j \<Rightarrow> j)"

text \<open>
  What the run does that a caller can observe besides the value returned: the calls of
  the progress callback, the requests (with their start index) and the suspensions. The
  callback is taken to return normally.
\<close>

datatype event = Progress int int int | Request int | Sleep int

text \<open>
  The two assignments to one item; only a dict takes them. \<open>idx\<close> is
  \<open>len(all_results) + 1\<close>, which the loop over the items of a page does not change.
\<close>

fun tag_item :: "int \<Rightarrow> int \<Rightarrow> json \<Rightarrow> py_exn + json" where
  "tag_item page idx (JObj kvs) =
     Inr (JObj (AList.update ''result_index'' (JNum idx)
                 (AList.update ''page_number'' (JNum page) kvs)))"
| "tag_item page idx _ = Inl TypeError"

fun tag_items :: "int \<Rightarrow> int \<Rightarrow> json list \<Rightarrow> py_exn + json list" where
  "tag_items page idx [] = Inr []"
| "tag_items page idx (item # items) =
     (case tag_item page idx item of
        Inl e \<Rightarrow> Inl e
      | Inr t \<Rightarrow>
          (case tag_items page idx items of
             Inl e \<Rightarrow> Inl e
           | Inr ts \<Rightarrow> Inr (t # ts)))"

definition start_index :: "int \<Rightarrow> int" where
  "start_index page = (page - 1) * results_per_page + 1"

text \<open>
  The body of the \<open>try\<close> for one page. \<open>Inr None\<close> is one of its two \<open>break\<close>s,
  \<open>Inr (Some rs)\<close> the accumulated list after \<open>extend\<close>. A truthy \<open>items\<close> that is not a
  list either cannot be iterated or yields items that take no assignment.
\<close>

definition page_try :: "api \<Rightarrow> int \<Rightarrow> json list \<Rightarrow> py_exn + json list option" where
  "page_try service page all_results =
     (let results = make_request service (start_index page)
      in if \<not> truthy results then Inr None
         else (case py_get results ''items'' (JArr []) of
                 Inl e \<Rightarrow> Inl e
               | Inr items \<Rightarrow>
                   if \<not> truthy items then Inr None
                   else (case items of
                           JArr xs \<Rightarrow>
                             (case tag_items page (int (length all_results) + 1) xs of
                                Inl e \<Rightarrow> Inl e
                              | Inr ts \<Rightarrow> Inr (Some (all_results @ ts)))
                         | _ \<Rightarrow> Inl TypeError)))"

text \<open>
  The \<open>for page in range(1, max_pages + 1)\<close> loop, over the pages still to do.
  \<open>except Exception\<close> turns every exception of the body into a \<open>break\<close>.
\<close>

fun search_pages ::
  "api \<Rightarrow> int \<Rightarrow> int \<Rightarrow> bool \<Rightarrow> int list \<Rightarrow> json list \<Rightarrow> event list \<times> json list" where
  "search_pages service max_pages delay_seconds cb [] all_results = ([], all_results)"
| "search_pages service max_pages delay_seconds cb (page # pages) all_results =
     (let before =
            (if cb then [Progress (page - 1) max_pages (int (length all_results))] else [])
            @ [Request (start_index page)]
      in case page_try service page all_results of
           Inl e \<Rightarrow> (before, all_results)
         | Inr None \<Rightarrow> (before, all_results)
         | Inr (Some rs) \<Rightarrow>
             (let after =
                    (if page < max_pages \<and> delay_seconds > 0 then [Sleep delay_seconds] else [])
                    @ (if cb then [Progress page max_pages (int (length rs))] else []);
                  rest = search_pages service max_pages delay_seconds cb pages rs
              in (before @ after @ fst rest, snd rest)))"

text \<open>\<open>search\<close>; \<open>cb\<close> says whether a progress callback was given.\<close>

definition search :: "api \<Rightarrow> int \<Rightarrow> int \<Rightarrow> bool \<Rightarrow> event list \<times> json list" where
  "search service max_pages delay_seconds cb =
     search_pages service max_pages delay_seconds cb [1..max_pages] []"

section \<open>Predicates for stating the properties\<close>

fun is_str :: "json \<Rightarrow> bool" where
  "is_str (JStr s) = True"
| "is_str _ = False"

fun is_obj :: "json \<Rightarrow> bool" where
  "is_obj (JObj kvs) = True"
| "is_obj _ = False"

text \<open>A field of a result that is either missing or a string.\<close>

definition str_or_absent :: "json option \<Rightarrow> bool" where
  "str_or_absent v = (case v of None \<Rightarrow> True | Some j \<Rightarrow> is_str j)"

text \<open>The string under a key of a result, the empty string when the key is missing.\<close>

definition str_field :: "(string \<times> json) list \<Rightarrow> string \<Rightarrow> string" where
  "str_field search_result k = (case map_of search_result k of Some (JStr s) \<Rightarrow> s | _ \<Rightarrow> [])"

text \<open>
  One attempt of the image rule, on the value found under \<open>cse_image\<close> or \<open>metatags\<close>.
  The attempt is passed over when the key is missing or its value is falsy. Otherwise it
  is carried out on the first entry: a first entry that is an object yields its field
  (or the empty string), a first entry of a list or string that is not an object has no
  \<open>get\<close>, and any other value has no first entry, which the rule's \<open>except\<close> catches.
  \<open>attempt_ok\<close> says that the attempt raises no \<open>AttributeError\<close> and yields no value
  other than a string.
\<close>

fun attempt_passes :: "json option \<Rightarrow> bool" where
  "attempt_passes None = True"
| "attempt_passes (Some v) = (\<not> truthy v)"

fun attempt_ok :: "json option \<Rightarrow> string \<Rightarrow> bool" where
  "attempt_ok (Some (JArr (JObj e # es))) field = str_or_absent (map_of e field)"
| "attempt_ok (Some (JArr (x # xs))) field = False"
| "attempt_ok (Some (JStr (c # cs))) field = False"
| "attempt_ok _ field = True"

text \<open>
  The results on which the image rule yields a string. A pagemap that is not an object
  always gives the empty string; on one that is, the \<open>metatags\<close> attempt is only made
  when the \<open>cse_image\<close> attempt is passed over.
\<close>

definition image_ok :: "(string \<times> json) list \<Rightarrow> bool" where
  "image_ok search_result =
     (case dict_get search_result ''pagemap'' (JObj []) of
        JObj pm \<Rightarrow>
          attempt_ok (map_of pm ''cse_image'') ''src''
          \<and> (attempt_passes (map_of pm ''cse_image'') \<longrightarrow>
               attempt_ok (map_of pm ''metatags'') ''og:image'')
      | _ \<Rightarrow> True)"

text \<open>
  A page that succeeds with non-empty items: the request returns an object whose
  \<open>items\<close> is a non-empty list of objects.
\<close>

definition page_succeeds :: "api \<Rightarrow> int \<Rightarrow> bool" where
  "page_succeeds service page =
     (case service (start_index page) of
        Body (JObj kvs) \<Rightarrow>
          (case map_of kvs ''items'' of
             Some (JArr xs) \<Rightarrow> xs \<noteq> [] \<and> list_all is_obj xs
           | _ \<Rightarrow> False)
      | _ \<Rightarrow> False)"

fun is_progress :: "event \<Rightarrow> bool" where
  "is_progress (Progress a b c) = True"
| "is_progress _ = False"

fun is_request :: "event \<Rightarrow> bool" where
  "is_request (Request s) = True"
| "is_request _ = False"

text \<open>
  Following the specification's words for the output of a run: the items of a page are
  the \<open>items\<close> list of its response; each is annotated with the page number and with
  an index, and the output is the concatenation in page order. \<open>items_before\<close> is the
  number of items of the pages before a page.
\<close>

definition page_items :: "api \<Rightarrow> int \<Rightarrow> json list" where
  "page_items service page =
     (case service (start_index page) of
        Body (JObj kvs) \<Rightarrow> (case map_of kvs ''items'' of Some (JArr xs) \<Rightarrow> xs | _ \<Rightarrow> [])
      | _ \<Rightarrow> [])"

definition items_before :: "api \<Rightarrow> int \<Rightarrow> nat" where
  "items_before service page = length (concat (map (page_items service) [1..page - 1]))"

fun annotated :: "int \<Rightarrow> int \<Rightarrow> json \<Rightarrow> json" where
  "annotated page idx (JObj kvs) =
     JObj (AList.update ''result_index'' (JNum idx) (AList.update ''page_number'' (JNum page) kvs))"
| "annotated page idx other = other"

text \<open>
  What a page that succeeds adds to the trace of a run: the progress call before the
  fetch, the request, the suspension if one is due, and the progress call after; and what
  it adds to the output.
\<close>

definition expected_page_trace :: "api \<Rightarrow> int \<Rightarrow> int \<Rightarrow> bool \<Rightarrow> int \<Rightarrow> event list" where
  "expected_page_trace service max_pages delay_seconds cb page =
     (if cb then [Progress (page - 1) max_pages (int (items_before service page))] else [])
     @ [Request (start_index page)]
     @ (if page < max_pages \<and> delay_seconds > 0 then [Sleep delay_seconds] else [])
     @ (if cb then [Progress page max_pages (int (items_before service (page + 1)))] else [])"

definition expected_page_results :: "api \<Rightarrow> int \<Rightarrow> json list" where
  "expected_page_results service page =
     map (annotated page (int (items_before service page) + 1)) (page_items service page)"

section \<open>Auxiliary facts\<close>

subsection \<open>Values and strings\<close>

lemma is_str_iff: "is_str v \<longleftrightarrow> (\<exists>s. v = JStr s)"
  by (cases v) auto

lemma mem_fst_map_of: "k \<in> fst ` set kvs \<longleftrightarrow> map_of kvs k \<noteq> None"
  by (simp add: map_of_eq_None_iff)

lemma str_field_get:
  "str_or_absent (map_of sr k) \<Longrightarrow> dict_get sr k (JStr []) = JStr (str_field sr k)"
  by (cases "map_of sr k") (auto simp: str_or_absent_def dict_get_def str_field_def is_str_iff)

lemma py_split_nonempty: "py_split sep s \<noteq> []"
  by (induction sep s rule: py_split.induct) (auto split: list.splits)

lemma clean_text_Nil: "clean_text [] = []"
  by (simp add: clean_text_def)


subsection \<open>The extraction rules on strings\<close>

lemma name_of_str_eq:
  "extract_name_from_title (JStr t) =
     Inr (if t = [] then ''N/A''
          else sub_honorific (strip (hd (py_split '' - '' (py_replace '' | LinkedIn'' [] t)))))"
  using py_split_nonempty [of "'' - ''" "py_replace '' | LinkedIn'' [] t"]
  by (cases "py_split '' - '' (py_replace '' | LinkedIn'' [] t)")
     (simp_all add: extract_name_from_title_def not_available_def dash_def linkedin_suffix_def)

lemma description_of_str_eq:
  "clean_description (JStr s) =
     Inr (if s = [] then ''N/A''
          else if length (clean_text s) > 300 then take 300 (clean_text s) @ ''...''
          else clean_text s)"
  by (simp add: clean_description_def not_available_def Let_def)

lemma title_default: "extract_title_from_content (JStr []) (JStr []) = Inr ''N/A''"
  by code_simp

lemma title_of_strs: "\<exists>r. extract_title_from_content (JStr t) (JStr s) = Inr r"
  by (simp add: extract_title_from_content_def title_from_title_def title_from_snippet_def
      Let_def split: option.splits sum.splits bool.splits)

subsection \<open>The image rule\<close>

lemma attempt_passes_None:
  "attempt_passes (map_of pm key) \<Longrightarrow> first_entry_field (JObj pm) key field = Inr None"
  by (cases "map_of pm key") (auto simp: first_entry_field_def mem_fst_map_of)

lemma attempt_ok_result:
  assumes "\<not> attempt_passes (map_of pm key)" and "attempt_ok (map_of pm key) field"
  shows "(\<exists>i. first_entry_field (JObj pm) key field = Inr (Some (JStr i)))
       \<or> first_entry_field (JObj pm) key field = Inl KeyError
       \<or> first_entry_field (JObj pm) key field = Inl TypeError"
  using assms
  by (cases "(map_of pm key, field)" rule: attempt_ok.cases)
     (auto simp: first_entry_field_def mem_fst_map_of dict_get_def str_or_absent_def is_str_iff
           split: option.splits)

lemma attempt_bad_result:
  assumes "\<not> attempt_ok (map_of pm key) field"
  shows "first_entry_field (JObj pm) key field = Inl AttributeError
       \<or> (\<exists>v. first_entry_field (JObj pm) key field = Inr (Some v) \<and> \<not> is_str v)"
  using assms
  by (cases "(map_of pm key, field)" rule: attempt_ok.cases)
     (auto simp: first_entry_field_def mem_fst_map_of dict_get_def str_or_absent_def
           split: option.splits)

lemma attempt_bad_not_passes: "\<not> attempt_ok v field \<Longrightarrow> \<not> attempt_passes v"
  by (cases "(v, field)" rule: attempt_ok.cases) auto

lemma first_entry_field_not_obj:
  "\<forall>pm. pagemap \<noteq> JObj pm \<Longrightarrow>
   first_entry_field pagemap key field = Inr None
   \<or> first_entry_field pagemap key field = Inl TypeError"
  by (cases pagemap) (auto simp: first_entry_field_def split: bool.splits)

lemma image_ok_str:
  assumes "image_ok sr"
  shows "\<exists>i. extract_image_url sr = Inr (JStr i)"
proof (cases "\<exists>pm. dict_get sr ''pagemap'' (JObj []) = JObj pm")
  case False
  then have n: "\<forall>pm. dict_get sr ''pagemap'' (JObj []) \<noteq> JObj pm" by simp
  from first_entry_field_not_obj [OF n, of "''cse_image''" "''src''"]
       first_entry_field_not_obj [OF n, of "''metatags''" "''og:image''"]
  show ?thesis by (auto simp: extract_image_url_def image_try_def)
next
  case True
  then obtain pm where pm: "dict_get sr ''pagemap'' (JObj []) = JObj pm" by blast
  with assms have c: "attempt_ok (map_of pm ''cse_image'') ''src''"
    and m: "attempt_passes (map_of pm ''cse_image'') \<Longrightarrow> attempt_ok (map_of pm ''metatags'') ''og:image''"
    by (simp_all add: image_ok_def)
  show ?thesis
  proof (cases "attempt_passes (map_of pm ''cse_image'')")
    case False
    from attempt_ok_result [OF False c] show ?thesis
      by (auto simp: extract_image_url_def image_try_def pm)
  next
    case p: True
    note c0 = attempt_passes_None [OF p, of "''src''"]
    show ?thesis
    proof (cases "attempt_passes (map_of pm ''metatags'')")
      case True
      from attempt_passes_None [OF True, of "''og:image''"] c0 show ?thesis
        by (simp add: extract_image_url_def image_try_def pm)
    next
      case False
      from attempt_ok_result [OF False m [OF p]] c0 show ?thesis
        by (auto simp: extract_image_url_def image_try_def pm)
    qed
  qed
qed

lemma image_bad_not_str:
  assumes "\<not> image_ok sr"
  shows "extract_image_url sr = Inl AttributeError
       \<or> (\<exists>v. extract_image_url sr = Inr v \<and> \<not> is_str v)"
proof -
  from assms obtain pm where pm: "dict_get sr ''pagemap'' (JObj []) = JObj pm"
    by (cases "dict_get sr ''pagemap'' (JObj [])") (auto simp: image_ok_def)
  show ?thesis
  proof (cases "attempt_ok (map_of pm ''cse_image'') ''src''")
    case False
    from attempt_bad_result [OF False] show ?thesis
      by (auto simp: extract_image_url_def image_try_def pm)
  next
    case True
    with assms pm have p: "attempt_passes (map_of pm ''cse_image'')"
      and b: "\<not> attempt_ok (map_of pm ''metatags'') ''og:image''"
      by (simp_all add: image_ok_def)
    from attempt_bad_result [OF b] attempt_passes_None [OF p, of "''src''"] show ?thesis
      by (auto simp: extract_image_url_def image_try_def pm)
  qed
qed

subsection \<open>The page loop\<close>

lemma tag_items_ok:
  "list_all is_obj xs \<Longrightarrow> \<exists>ts. tag_items page idx xs = Inr ts \<and> length ts = length xs"
proof (induction xs)
  case Nil
  then show ?case by simp
next
  case (Cons x xs)
  then obtain ts where "tag_items page idx xs = Inr ts" "length ts = length xs" by auto
  moreover from Cons.prems obtain kvs where "x = JObj kvs" by (cases x) auto
  ultimately show ?case by simp
qed

lemma page_try_ok:
  assumes "page_succeeds service page"
  shows "\<exists>ts. page_try service page acc = Inr (Some (acc @ ts))"
proof -
  from assms obtain j where j: "service (start_index page) = Body j"
    by (cases "service (start_index page)") (auto simp: page_succeeds_def)
  with assms obtain kvs where b: "service (start_index page) = Body (JObj kvs)"
    by (cases j) (auto simp: page_succeeds_def)
  with assms obtain v where v: "map_of kvs ''items'' = Some v"
    by (cases "map_of kvs ''items''") (auto simp: page_succeeds_def)
  with assms b obtain xs where i: "map_of kvs ''items'' = Some (JArr xs)"
    by (cases v) (auto simp: page_succeeds_def)
  with assms b have ne: "xs \<noteq> []" and o: "list_all is_obj xs"
    by (auto simp: page_succeeds_def)
  from tag_items_ok [OF o] obtain ts where "tag_items page (int (length acc) + 1) xs = Inr ts"
    by blast
  moreover from i have "kvs \<noteq> []" by auto
  ultimately show ?thesis using b i ne
    by (simp add: page_try_def make_request_def dict_get_def)
qed

lemma page_try_fail:
  "service (start_index p) = RequestException \<or> service (start_index p) = JSONDecodeError
   \<Longrightarrow> page_try service p acc = Inr None"
  by (auto simp: page_try_def make_request_def)

text \<open>While the pages succeed, the loop over \<open>ps @ qs\<close> is the loop over \<open>ps\<close> and then,
  from what it accumulated, the loop over \<open>qs\<close>.\<close>

lemma search_pages_append:
  "\<forall>q\<in>set ps. page_succeeds service q \<Longrightarrow>
   search_pages service mp d cb (ps @ qs) acc =
     (fst (search_pages service mp d cb ps acc)
        @ fst (search_pages service mp d cb qs (snd (search_pages service mp d cb ps acc))),
      snd (search_pages service mp d cb qs (snd (search_pages service mp d cb ps acc))))"
proof (induction ps arbitrary: acc)
  case Nil
  then show ?case by simp
next
  case (Cons p ps)
  from Cons.prems have "page_succeeds service p" by simp
  from page_try_ok [OF this] obtain ts where t: "page_try service p acc = Inr (Some (acc @ ts))"
    by blast
  from Cons.prems have "\<forall>q\<in>set ps. page_succeeds service q" by simp
  from Cons.IH [OF this] show ?case by (simp add: t Let_def)
qed

lemma tag_items_annotated:
  "list_all is_obj xs \<Longrightarrow> tag_items page idx xs = Inr (map (annotated page idx) xs)"
proof (induction xs)
  case Nil
  then show ?case by simp
next
  case (Cons x xs)
  moreover from Cons.prems obtain kvs where "x = JObj kvs" by (cases x) auto
  ultimately show ?case by simp
qed

lemma page_try_exact:
  assumes "page_succeeds service page"
  shows "page_try service page acc =
           Inr (Some (acc @ map (annotated page (int (length acc) + 1)) (page_items service page)))"
proof -
  from assms obtain j where j: "service (start_index page) = Body j"
    by (cases "service (start_index page)") (auto simp: page_succeeds_def)
  with assms obtain kvs where b: "service (start_index page) = Body (JObj kvs)"
    by (cases j) (auto simp: page_succeeds_def)
  with assms obtain v where v: "map_of kvs ''items'' = Some v"
    by (cases "map_of kvs ''items''") (auto simp: page_succeeds_def)
  with assms b obtain xs where i: "map_of kvs ''items'' = Some (JArr xs)"
    by (cases v) (auto simp: page_succeeds_def)
  with assms b have ne: "xs \<noteq> []" and o: "list_all is_obj xs"
    by (auto simp: page_succeeds_def)
  from i have "kvs \<noteq> []" by auto
  with b i ne tag_items_annotated [OF o] show ?thesis
    by (simp add: page_try_def make_request_def dict_get_def page_items_def)
qed

lemma items_before_Suc:
  assumes "0 \<le> p"
  shows "items_before service (p + 2) =
           items_before service (p + 1) + length (page_items service (p + 1))"
proof -
  have a: "p + 2 - 1 = p + 1" "p + 1 - 1 = p" by simp_all
  have "[1..p + 1] = [1..p] @ [p + 1]" using assms upto_rec2 [of 1 "p + 1"] by simp
  then show ?thesis unfolding items_before_def a by simp
qed

lemma length_expected_results:
  "length (concat (map (expected_page_results service) [1..p])) = items_before service (p + 1)"
  by (simp add: items_before_def expected_page_results_def length_concat comp_def)

lemma run_of_good_pages:
  assumes "0 \<le> p" and "\<forall>q. 1 \<le> q \<and> q \<le> p \<longrightarrow> page_succeeds service q"
  shows "search_pages service mp d cb [1..p] [] =
           (concat (map (expected_page_trace service mp d cb) [1..p]),
            concat (map (expected_page_results service) [1..p]))"
  using assms
proof (induction p rule: int_ge_induct)
  case base
  then show ?case by simp
next
  case (step p)
  have ok: "\<forall>q\<in>set [1..p]. page_succeeds service q" using step.prems by auto
  have last: "page_succeeds service (p + 1)" using step.prems step.hyps by auto
  have IH: "search_pages service mp d cb [1..p] [] =
           (concat (map (expected_page_trace service mp d cb) [1..p]),
            concat (map (expected_page_results service) [1..p]))"
    using step.IH step.prems by auto
  have split: "[1..p + 1] = [1..p] @ [p + 1]"
    using step.hyps upto_rec2 [of 1 "p + 1"] by simp
  have a: "p + 1 + 1 = p + 2" by simp
  have one: "search_pages service mp d cb [p + 1]
               (concat (map (expected_page_results service) [1..p])) =
             (expected_page_trace service mp d cb (p + 1),
              concat (map (expected_page_results service) [1..p])
                @ expected_page_results service (p + 1))"
    by (simp add: page_try_exact [OF last] length_expected_results Let_def a
        expected_page_trace_def [of service mp d cb "p + 1"]
        expected_page_results_def [of service "p + 1"]
        items_before_Suc [OF step.hyps])
  show ?case
    unfolding split
    by (simp add: search_pages_append [OF ok] IH one del: search_pages.simps)
qed

lemma requests_of_trace:
  "filter is_request (concat (map (expected_page_trace service mp d cb) ps)) =
     map (\<lambda>q. Request (start_index q)) ps"
  by (induction ps) (simp_all add: expected_page_trace_def)

lemma progress_of_trace:
  "length (filter is_progress (concat (map (expected_page_trace service mp d True) ps))) =
     2 * length ps"
  by (induction ps) (simp_all add: expected_page_trace_def)

lemma split_after_prefix:
  "xs @ ys = pre @ e # post \<Longrightarrow> e \<notin> set xs \<Longrightarrow>
   \<exists>pre'. pre = xs @ pre' \<and> ys = pre' @ e # post"
proof (induction xs arbitrary: pre)
  case Nil
  then show ?case by simp
next
  case (Cons x xs)
  then show ?case by (cases pre) auto
qed

text \<open>Every suspension in the trace of the loop: its length, and the request before it.\<close>

lemma sleeps_of_pages:
  "fst (search_pages service mp delay cb ps acc) = pre @ Sleep d # post \<Longrightarrow>
   d = delay \<and> 0 < delay \<and>
   (\<exists>p\<in>set ps. p < mp \<and> filter is_request pre \<noteq> [] \<and>
                last (filter is_request pre) = Request (start_index p))"
proof (induction ps arbitrary: acc pre)
  case Nil
  then show ?case by simp
next
  case (Cons p ps)
  let ?goal = ?case
  define B where
    "B = (if cb then [Progress (p - 1) mp (int (length acc))] else []) @ [Request (start_index p)]"
  have noB: "Sleep d \<notin> set B" by (simp add: B_def)
  have reqB: "filter is_request B = [Request (start_index p)]" by (simp add: B_def)
  show ?case
  proof (cases "page_try service p acc")
    case (Inl e)
    with Cons.prems have "B = pre @ Sleep d # post" by (simp add: B_def)
    then have "Sleep d \<in> set B" by (metis in_set_conv_decomp)
    with noB show ?thesis by simp
  next
    case (Inr r)
    show ?thesis
    proof (cases r)
      case None
      with Inr Cons.prems have "B = pre @ Sleep d # post" by (simp add: B_def)
      then have "Sleep d \<in> set B" by (metis in_set_conv_decomp)
      with noB show ?thesis by simp
    next
      case (Some rs)
      define S where "S = (if p < mp \<and> delay > 0 then [Sleep delay] else [])"
      define P where "P = (if cb then [Progress p mp (int (length rs))] else [])"
      define R where "R = fst (search_pages service mp delay cb ps rs)"
      have noP: "Sleep d \<notin> set P" by (simp add: P_def)
      have reqP: "filter is_request P = []" by (simp add: P_def)
      have reqS: "filter is_request S = []" by (simp add: S_def)
      from Inr Some Cons.prems have "B @ (S @ P @ R) = pre @ Sleep d # post"
        by (simp add: B_def S_def P_def R_def Let_def)
      from split_after_prefix [OF this noB] obtain pre1
        where pre: "pre = B @ pre1" and rest: "S @ P @ R = pre1 @ Sleep d # post" by blast
      have in_rest: "\<And>pre2. P @ R = pre2 @ Sleep d # post \<Longrightarrow> pre = B @ S @ pre2 \<Longrightarrow> ?goal"
      proof -
        fix pre2
        assume e: "P @ R = pre2 @ Sleep d # post" and p2: "pre = B @ S @ pre2"
        from split_after_prefix [OF e noP] obtain pre3
          where pre2: "pre2 = P @ pre3" and r: "R = pre3 @ Sleep d # post" by blast
        from Cons.IH [OF r [unfolded R_def]] obtain q
          where q: "d = delay" "0 < delay" "q \<in> set ps" "q < mp"
            "filter is_request pre3 \<noteq> []"
            "last (filter is_request pre3) = Request (start_index q)"
          by blast
        from q show ?goal by (auto simp: p2 pre2 reqB reqP reqS)
      qed
      show ?thesis
      proof (cases "p < mp \<and> delay > 0")
        case True
        then have S: "S = [Sleep delay]" by (simp add: S_def)
        show ?thesis
        proof (cases pre1)
          case Nil
          with rest S have "d = delay" by simp
          with True Nil pre reqB show ?thesis by simp
        next
          case (Cons x pre2)
          with rest S have "P @ R = pre2 @ Sleep d # post" "pre1 = S @ pre2" by simp_all
          with pre show ?thesis by (intro in_rest [of pre2]) simp_all
        qed
      next
        case False
        then have S: "S = []" by (simp add: S_def)
        with rest pre show ?thesis by (intro in_rest [of pre1]) simp_all
      qed
    qed
  qed
qed

section \<open>Properties of the extractor\<close>

text \<open>
  C1. For a title that contains the delimiter, the professional title is claimed to be
  everything after the first delimiter, without the source suffix and trimmed. The code
  takes the second segment of the split only: for the title
  \<open>A - B - C | LinkedIn\<close> it returns \<open>B\<close>, where the claim (and the comment in the
  source) says \<open>B - C\<close>.
\<close>

theorem title_is_second_segment_only:
  "extract_profile_info [(''title'', JStr ''A - B - C | LinkedIn'')] =
     Inr \<lparr>name = ''A'', title = ''B'', link = JStr [], description = ''N/A'',
          image = JStr []\<rparr>"
  by code_simp

text \<open>
  C3, as the code has it. With a pagemap that is an object (a missing pagemap counts as
  the empty object): when \<open>cse_image\<close> is a list whose first entry is an object, the image
  is that entry's \<open>src\<close>, or the empty string when the entry has none, whether or not
  that \<open>src\<close> is empty; when \<open>cse_image\<close> is missing or empty and \<open>metatags\<close> is a list
  whose first entry is an object, the image is that entry's \<open>og:image\<close>, or the empty
  string; when both are missing or empty, the image is the empty string.
\<close>

theorem image_preference:
  assumes "dict_get sr ''pagemap'' (JObj []) = JObj pm"
  shows "(map_of pm ''cse_image'' = Some (JArr (JObj e # es)) \<longrightarrow>
            extract_image_url sr = Inr (dict_get e ''src'' (JStr [])))
       \<and> ((map_of pm ''cse_image'' = None \<or> map_of pm ''cse_image'' = Some (JArr []))
            \<and> map_of pm ''metatags'' = Some (JArr (JObj m # ms)) \<longrightarrow>
            extract_image_url sr = Inr (dict_get m ''og:image'' (JStr [])))
       \<and> ((map_of pm ''cse_image'' = None \<or> map_of pm ''cse_image'' = Some (JArr []))
            \<and> (map_of pm ''metatags'' = None \<or> map_of pm ''metatags'' = Some (JArr [])) \<longrightarrow>
            extract_image_url sr = Inr (JStr []))"
  using assms
  by (auto simp: extract_image_url_def image_try_def first_entry_field_def mem_fst_map_of)

theorem image_preference_witness:
  "extract_image_url
     [(''pagemap'', JObj [(''cse_image'', JArr [JObj [(''src'', JStr ''http://x/y.jpg'')]])])]
     = Inr (JStr ''http://x/y.jpg'')
   \<and> extract_image_url
       [(''pagemap'', JObj [(''metatags'', JArr [JObj [(''og:image'', JStr ''http://a/b.png'')]])])]
     = Inr (JStr ''http://a/b.png'')
   \<and> extract_image_url [(''link'', JStr ''http://l'')] = Inr (JStr [])"
proof (intro conjI)
  show "extract_image_url
     [(''pagemap'', JObj [(''cse_image'', JArr [JObj [(''src'', JStr ''http://x/y.jpg'')]])])]
     = Inr (JStr ''http://x/y.jpg'')"
    using image_preference
      [of "[(''pagemap'', JObj [(''cse_image'', JArr [JObj [(''src'', JStr ''http://x/y.jpg'')]])])]"
          "[(''cse_image'', JArr [JObj [(''src'', JStr ''http://x/y.jpg'')]])]"
          "[(''src'', JStr ''http://x/y.jpg'')]" "[]"]
    by (simp add: dict_get_def)
  show "extract_image_url
       [(''pagemap'', JObj [(''metatags'', JArr [JObj [(''og:image'', JStr ''http://a/b.png'')]])])]
     = Inr (JStr ''http://a/b.png'')"
    using image_preference
      [of "[(''pagemap'', JObj [(''metatags'', JArr [JObj [(''og:image'', JStr ''http://a/b.png'')]])])]"
          "[(''metatags'', JArr [JObj [(''og:image'', JStr ''http://a/b.png'')]])]" _ _
          "[(''og:image'', JStr ''http://a/b.png'')]" "[]"]
    by (simp add: dict_get_def)
  show "extract_image_url [(''link'', JStr ''http://l'')] = Inr (JStr [])"
    using image_preference [of "[(''link'', JStr ''http://l'')]" "[]"]
    by (simp add: dict_get_def)
qed

text \<open>
  C3 as stated fails: with \<open>cse_image[0].src\<close> present but empty and an \<open>og:image\<close>
  present, the image is the empty string and not the \<open>og:image\<close> value.
\<close>

theorem empty_src_counterexample:
  "extract_image_url
     [(''pagemap'', JObj [(''cse_image'', JArr [JObj [(''src'', JStr [])]]),
                          (''metatags'', JArr [JObj [(''og:image'', JStr ''http://a/b.png'')]])])]
   = Inr (JStr [])
   \<and> Inr (JStr []) \<noteq> (Inr (JStr ''http://a/b.png'') :: py_exn + json)"
  by code_simp

text \<open>
  C4, as the code has it. When the cleaned snippet (entities replaced, white space
  collapsed and trimmed) is longer than 300 characters, the description is its first 300
  characters followed by \<open>...\<close>, and has length 303.
\<close>

theorem long_description_is_truncated:
  assumes "length (clean_text s) > 300"
  shows "clean_description (JStr s) = Inr (take 300 (clean_text s) @ ''...'')
       \<and> length (take 300 (clean_text s) @ ''...'') = 303"
proof -
  from assms have "s \<noteq> []" by (auto simp: clean_text_Nil)
  with assms show ?thesis by (simp add: clean_description_def)
qed

theorem long_description_is_truncated_witness:
  "length (clean_text (replicate 301 (CHR ''a''))) > 300
   \<and> clean_description (JStr (replicate 301 (CHR ''a''))) =
       Inr (replicate 300 (CHR ''a'') @ ''...'')"
proof -
  have c: "clean_text (replicate 301 (CHR ''a'')) = replicate 301 (CHR ''a'')" by code_simp
  have h: "length (clean_text (replicate 301 (CHR ''a''))) > 300" by (simp add: c)
  from long_description_is_truncated [OF h] h show ?thesis by (simp add: c)
qed

text \<open>
  C4 as stated fails: the length test is on the cleaned snippet, not on the snippet. A
  snippet of 301 characters, an \<open>x\<close> followed by 300 spaces, has the description \<open>x\<close>.
\<close>

theorem short_cleaned_snippet_counterexample:
  "length (CHR ''x'' # replicate 300 (CHR '' '')) > 300
   \<and> clean_description (JStr (CHR ''x'' # replicate 300 (CHR '' ''))) = Inr ''x''
   \<and> length ''x'' \<noteq> 303"
  by code_simp

text \<open>
  C5, as the code has it. For a raw result in which \<open>title\<close>, \<open>snippet\<close> and \<open>link\<close> are
  each missing or a string, \<open>extract_profile_info\<close> returns a profile of five strings
  exactly when the image rule meets no first entry without \<open>get\<close> and no field value
  that is not a string. The profile then has the sentinel as name for a missing or empty
  title, and otherwise what the honorific removal leaves of the trimmed first segment;
  the title the title rule gives, which is the sentinel when title and snippet are both
  missing or empty; the raw link, or the empty string when it is missing; the sentinel
  as description for a missing or empty snippet, and otherwise the cleaned snippet, cut
  to 300 characters and an ellipsis when longer; and the empty string as image when there
  is no pagemap.
\<close>

theorem profile_fields_are_strings:
  assumes "str_or_absent (map_of sr ''title'')"
    and "str_or_absent (map_of sr ''snippet'')"
    and "str_or_absent (map_of sr ''link'')"
  shows "(image_ok sr \<longrightarrow>
           (\<exists>t i. extract_profile_info sr =
               Inr \<lparr>name = (if str_field sr ''title'' = [] then ''N/A''
                            else sub_honorific (strip (hd (py_split '' - ''
                                   (py_replace '' | LinkedIn'' [] (str_field sr ''title'')))))),
                    title = t,
                    link = JStr (str_field sr ''link''),
                    description = (if str_field sr ''snippet'' = [] then ''N/A''
                                   else if length (clean_text (str_field sr ''snippet'')) > 300
                                   then take 300 (clean_text (str_field sr ''snippet'')) @ ''...''
                                   else clean_text (str_field sr ''snippet'')),
                    image = JStr i\<rparr>
             \<and> extract_title_from_content (JStr (str_field sr ''title''))
                   (JStr (str_field sr ''snippet'')) = Inr t
             \<and> (str_field sr ''title'' = [] \<and> str_field sr ''snippet'' = [] \<longrightarrow> t = ''N/A'')
             \<and> (map_of sr ''pagemap'' = None \<longrightarrow> i = [])))
       \<and> (\<not> image_ok sr \<longrightarrow>
            \<not> (\<exists>p i. extract_profile_info sr = Inr p \<and> image p = JStr i))"
proof (intro conjI impI)
  note tt = str_field_get [OF assms(1)]
  note ss = str_field_get [OF assms(2)]
  note ll = str_field_get [OF assms(3)]
  from title_of_strs obtain t
    where t: "extract_title_from_content (JStr (str_field sr ''title''))
                (JStr (str_field sr ''snippet'')) = Inr t" by blast
  {
    assume ok: "image_ok sr"
    from image_ok_str [OF ok] obtain i where i: "extract_image_url sr = Inr (JStr i)" by blast
    have d: "str_field sr ''title'' = [] \<and> str_field sr ''snippet'' = [] \<longrightarrow> t = ''N/A''"
      using t title_default by auto
    have e: "map_of sr ''pagemap'' = None \<longrightarrow> i = []"
      using i by (auto simp: extract_image_url_def image_try_def dict_get_def first_entry_field_def)
    show "\<exists>t i. extract_profile_info sr =
               Inr \<lparr>name = (if str_field sr ''title'' = [] then ''N/A''
                            else sub_honorific (strip (hd (py_split '' - ''
                                   (py_replace '' | LinkedIn'' [] (str_field sr ''title'')))))),
                    title = t,
                    link = JStr (str_field sr ''link''),
                    description = (if str_field sr ''snippet'' = [] then ''N/A''
                                   else if length (clean_text (str_field sr ''snippet'')) > 300
                                   then take 300 (clean_text (str_field sr ''snippet'')) @ ''...''
                                   else clean_text (str_field sr ''snippet'')),
                    image = JStr i\<rparr>
             \<and> extract_title_from_content (JStr (str_field sr ''title''))
                   (JStr (str_field sr ''snippet'')) = Inr t
             \<and> (str_field sr ''title'' = [] \<and> str_field sr ''snippet'' = [] \<longrightarrow> t = ''N/A'')
             \<and> (map_of sr ''pagemap'' = None \<longrightarrow> i = [])"
      using t i d e
      by (intro exI [of _ t] exI [of _ i])
         (simp add: extract_profile_info_def tt ss ll name_of_str_eq description_of_str_eq)
  }
  {
    assume bad: "\<not> image_ok sr"
    from image_bad_not_str [OF bad]
    show "\<not> (\<exists>p i. extract_profile_info sr = Inr p \<and> image p = JStr i)"
      by (auto simp: extract_profile_info_def tt ss ll name_of_str_eq description_of_str_eq t)
  }
qed

theorem profile_fields_are_strings_witness:
  "extract_profile_info [(''link'', JStr ''http://l'')] =
     Inr \<lparr>name = ''N/A'', title = ''N/A'', link = JStr ''http://l'', description = ''N/A'',
          image = JStr []\<rparr>
   \<and> \<not> (\<exists>p i. extract_profile_info
                 [(''pagemap'', JObj [(''cse_image'', JArr [JStr ''x''])])] = Inr p
              \<and> image p = JStr i)"
proof -
  have f: "str_field [(''link'', JStr ''http://l'')] ''title'' = []"
    "str_field [(''link'', JStr ''http://l'')] ''snippet'' = []"
    "str_field [(''link'', JStr ''http://l'')] ''link'' = ''http://l''"
    by (simp_all add: str_field_def)
  have ok: "image_ok [(''link'', JStr ''http://l'')]"
    by (simp add: image_ok_def dict_get_def)
  have bad: "\<not> image_ok [(''pagemap'', JObj [(''cse_image'', JArr [JStr ''x''])])]"
    by (simp add: image_ok_def dict_get_def)
  from profile_fields_are_strings [of "[(''link'', JStr ''http://l'')]"] ok
  have "extract_profile_info [(''link'', JStr ''http://l'')] =
     Inr \<lparr>name = ''N/A'', title = ''N/A'', link = JStr ''http://l'', description = ''N/A'',
          image = JStr []\<rparr>"
    by (auto simp: str_or_absent_def f)
  moreover from profile_fields_are_strings
      [of "[(''pagemap'', JObj [(''cse_image'', JArr [JStr ''x''])])]"] bad
  have "\<not> (\<exists>p i. extract_profile_info
                 [(''pagemap'', JObj [(''cse_image'', JArr [JStr ''x''])])] = Inr p
              \<and> image p = JStr i)"
    by (simp add: str_or_absent_def)
  ultimately show ?thesis by simp
qed

text \<open>
  C5 as stated fails on malformed sub-fields. With \<open>title\<close> null the extraction raises
  \<open>TypeError\<close>, with \<open>snippet\<close> null it raises \<open>AttributeError\<close>, and no profile is
  returned; with \<open>link\<close> null the profile's link is null; with a \<open>cse_image\<close> list whose
  first entry is a string the image rule raises \<open>AttributeError\<close>, which it does not
  catch; and with a null \<open>src\<close> the profile's image is null.
\<close>

theorem malformed_fields_counterexample:
  "extract_profile_info [(''title'', JNull)] = Inl TypeError
   \<and> extract_profile_info [(''snippet'', JNull)] = Inl AttributeError
   \<and> extract_profile_info [(''link'', JNull)] =
       Inr \<lparr>name = ''N/A'', title = ''N/A'', link = JNull, description = ''N/A'',
            image = JStr []\<rparr>
   \<and> extract_profile_info [(''pagemap'', JObj [(''cse_image'', JArr [JStr ''x''])])] =
       Inl AttributeError
   \<and> extract_profile_info [(''pagemap'', JObj [(''cse_image'', JArr [JObj [(''src'', JNull)]])])] =
       Inr \<lparr>name = ''N/A'', title = ''N/A'', link = JStr [], description = ''N/A'',
            image = JNull\<rparr>"
  by code_simp

text \<open>
  C8, as the code has it. For a raw result whose title and snippet are both the empty
  string and that has no link and no pagemap, the profile has name, title and
  description equal to \<open>N/A\<close> and link and image equal to the empty string.
\<close>

theorem empty_title_and_snippet:
  assumes "map_of sr ''title'' = Some (JStr [])"
    and "map_of sr ''snippet'' = Some (JStr [])"
    and "map_of sr ''link'' = None"
    and "map_of sr ''pagemap'' = None"
  shows "extract_profile_info sr =
           Inr \<lparr>name = ''N/A'', title = ''N/A'', link = JStr [], description = ''N/A'',
                image = JStr []\<rparr>"
  using assms
  by (simp add: extract_profile_info_def dict_get_def extract_name_from_title_def
      extract_title_from_content_def title_from_title_def title_from_snippet_def
      clean_description_def extract_image_url_def image_try_def first_entry_field_def
      not_available_def dash_def middle_dot_def strip_def lower_def job_keywords_def Let_def)

theorem empty_title_and_snippet_witness:
  "extract_profile_info [(''title'', JStr []), (''snippet'', JStr [])] =
           Inr \<lparr>name = ''N/A'', title = ''N/A'', link = JStr [], description = ''N/A'',
                image = JStr []\<rparr>"
  using empty_title_and_snippet [of "[(''title'', JStr []), (''snippet'', JStr [])]"]
  by simp

text \<open>
  C8 as stated fails: the link and the image are read from the result whatever the title
  and the snippet are. With an empty title and snippet, a link and an image hint, the
  profile carries that link and that image.
\<close>

theorem link_and_image_counterexample:
  "extract_profile_info
     [(''title'', JStr []), (''snippet'', JStr []), (''link'', JStr ''http://x''),
      (''pagemap'', JObj [(''cse_image'', JArr [JObj [(''src'', JStr ''http://x/y.jpg'')]])])] =
   Inr \<lparr>name = ''N/A'', title = ''N/A'', link = JStr ''http://x'', description = ''N/A'',
        image = JStr ''http://x/y.jpg''\<rparr>"
  by code_simp



section \<open>Properties of the retriever\<close>

text \<open>
  C2. The k-th item of the accumulated output is claimed to carry \<open>result_index = k\<close>.
  The index is computed from the length of the accumulated list, which only grows after
  the loop over the page's items: every item of a page carries the index of the page's
  first item. For one page of two items, the second item has \<open>result_index = 1\<close>.
\<close>

theorem result_index_repeats_within_page:
  "snd (search (\<lambda>start. if start = 1
                  then Body (JObj [(''items'', JArr [JObj [(''link'', JStr ''a'')],
                                                   JObj [(''link'', JStr ''b'')]])])
                  else RequestException) 1 0 False) =
     [JObj [(''link'', JStr ''a''), (''page_number'', JNum 1), (''result_index'', JNum 1)],
      JObj [(''link'', JStr ''b''), (''page_number'', JNum 1), (''result_index'', JNum 1)]]"
  by code_simp

text \<open>
  C6. When the pages before \<open>p\<close> succeed and the request of page \<open>p\<close> fails in transport
  or in decoding, the run returns a value and raises nothing. Its trace is that of the
  pages \<open>1..p - 1\<close>, each with its progress calls, request and suspension, followed by
  the progress call (if a callback was given) and the request of page \<open>p\<close>, and by
  nothing else: the requests made are those of the pages \<open>1..p\<close>. The value returned is
  the concatenation, in page order, of the items of the pages \<open>1..p - 1\<close>, each
  annotated with its page number and with the index the code gives to the items of
  that page.
\<close>

theorem failed_page_stops_run:
  assumes "1 \<le> p" and "p \<le> max_pages"
    and "\<forall>q. 1 \<le> q \<and> q < p \<longrightarrow> page_succeeds service q"
    and "service (start_index p) = RequestException \<or> service (start_index p) = JSONDecodeError"
  shows "search service max_pages d cb =
           (concat (map (\<lambda>q.
                (if cb then [Progress (q - 1) max_pages (int (items_before service q))] else [])
                @ [Request (start_index q)]
                @ (if q < max_pages \<and> d > 0 then [Sleep d] else [])
                @ (if cb then [Progress q max_pages (int (items_before service (q + 1)))] else []))
              [1..p - 1])
            @ (if cb then [Progress (p - 1) max_pages (int (items_before service p))] else [])
            @ [Request (start_index p)],
            concat (map (\<lambda>q. map (annotated q (int (items_before service q) + 1))
                                 (page_items service q)) [1..p - 1]))
       \<and> filter is_request (fst (search service max_pages d cb)) =
           map (\<lambda>q. Request (start_index q)) [1..p]"
proof -
  have split: "[1..max_pages] = [1..p - 1] @ p # [p + 1..max_pages]"
    using assms(1,2) upto_split1 [of 1 p max_pages] upto_rec1 [of p max_pages] by simp
  have ok: "\<forall>q\<in>set [1..p - 1]. page_succeeds service q"
    using assms(3) by auto
  have ok': "\<forall>q. 1 \<le> q \<and> q \<le> p - 1 \<longrightarrow> page_succeeds service q"
    using assms(3) by auto
  have p0: "0 \<le> p - 1" using assms(1) by simp
  note run = run_of_good_pages [OF p0 ok', of max_pages d cb]
  have len: "length (concat (map (expected_page_results service) [1..p - 1])) = items_before service p"
    using length_expected_results [of service "p - 1"] by simp
  have eq: "search service max_pages d cb =
           (concat (map (expected_page_trace service max_pages d cb) [1..p - 1])
            @ (if cb then [Progress (p - 1) max_pages (int (items_before service p))] else [])
            @ [Request (start_index p)],
            concat (map (expected_page_results service) [1..p - 1]))"
    unfolding search_def split
    by (simp add: search_pages_append [OF ok] run len page_try_fail [of service p, OF assms(4)])
  have reqs: "filter is_request (fst (search service max_pages d cb)) =
           map (\<lambda>q. Request (start_index q)) [1..p]"
    using assms(1) upto_rec2 [of 1 p]
    by (simp add: eq requests_of_trace)
  have e1: "expected_page_trace service max_pages d cb = (\<lambda>q.
                (if cb then [Progress (q - 1) max_pages (int (items_before service q))] else [])
                @ [Request (start_index q)]
                @ (if q < max_pages \<and> d > 0 then [Sleep d] else [])
                @ (if cb then [Progress q max_pages (int (items_before service (q + 1)))] else []))"
    by (rule ext) (simp add: expected_page_trace_def)
  have e2: "expected_page_results service =
     (\<lambda>q. map (annotated q (int (items_before service q) + 1)) (page_items service q))"
    by (rule ext) (simp add: expected_page_results_def)
  from eq reqs show ?thesis unfolding e1 e2 by simp
qed

theorem failed_page_stops_run_witness:
  "search (\<lambda>start. if start = 1
             then Body (JObj [(''items'', JArr [JObj [(''link'', JStr ''a'')],
                                              JObj [(''link'', JStr ''b'')]])])
             else if start = 11
             then Body (JObj [(''items'', JArr [JObj [(''link'', JStr ''c'')]])])
             else RequestException) 5 5 True =
     ([Progress 0 5 0, Request 1, Sleep 5, Progress 1 5 2,
       Progress 1 5 2, Request 11, Sleep 5, Progress 2 5 3,
       Progress 2 5 3, Request 21],
      [JObj [(''link'', JStr ''a''), (''page_number'', JNum 1), (''result_index'', JNum 1)],
       JObj [(''link'', JStr ''b''), (''page_number'', JNum 1), (''result_index'', JNum 1)],
       JObj [(''link'', JStr ''c''), (''page_number'', JNum 2), (''result_index'', JNum 3)]])"
proof -
  let ?svc = "\<lambda>start::int. if start = 1
             then Body (JObj [(''items'', JArr [JObj [(''link'', JStr ''a'')],
                                              JObj [(''link'', JStr ''b'')]])])
             else if start = 11
             then Body (JObj [(''items'', JArr [JObj [(''link'', JStr ''c'')]])])
             else RequestException"
  have h1: "(1::int) \<le> 3" and h2: "(3::int) \<le> 5" by simp_all
  have h3: "\<forall>q. 1 \<le> q \<and> q < 3 \<longrightarrow> page_succeeds ?svc q"
  proof (intro allI impI)
    fix q :: int assume "1 \<le> q \<and> q < 3"
    then have "q = 1 \<or> q = 2" by auto
    then show "page_succeeds ?svc q"
      by (auto simp: page_succeeds_def start_index_def results_per_page_def)
  qed
  have h4: "?svc (start_index 3) = RequestException \<or> ?svc (start_index 3) = JSONDecodeError"
    by (simp add: start_index_def results_per_page_def)
  note r = failed_page_stops_run [of 3 5 ?svc 5 True, OF h1 h2 h3 h4, THEN conjunct1]
  have rhs: "(concat (map (\<lambda>q.
                (if True then [Progress (q - 1) 5 (int (items_before ?svc q))] else [])
                @ [Request (start_index q)]
                @ (if q < 5 \<and> (5::int) > 0 then [Sleep 5] else [])
                @ (if True then [Progress q 5 (int (items_before ?svc (q + 1)))] else []))
              [1..3 - 1])
            @ (if True then [Progress (3 - 1) 5 (int (items_before ?svc 3))] else [])
            @ [Request (start_index 3)],
            concat (map (\<lambda>q. map (annotated q (int (items_before ?svc q) + 1))
                                 (page_items ?svc q)) [1..3 - 1])) =
     ([Progress 0 5 0, Request 1, Sleep 5, Progress 1 5 2,
       Progress 1 5 2, Request 11, Sleep 5, Progress 2 5 3,
       Progress 2 5 3, Request 21],
      [JObj [(''link'', JStr ''a''), (''page_number'', JNum 1), (''result_index'', JNum 1)],
       JObj [(''link'', JStr ''b''), (''page_number'', JNum 1), (''result_index'', JNum 1)],
       JObj [(''link'', JStr ''c''), (''page_number'', JNum 2), (''result_index'', JNum 3)]])"
    by code_simp
  show ?thesis by (rule trans [OF r rhs])
qed

text \<open>
  C7, as the code has it. In a run of \<open>n\<close> pages that all succeed with non-empty items,
  the trace is, page after page: the progress call with the pages completed and the
  items accumulated so far, the request of the page, the suspension if one is due, and
  the progress call with the page counted and its items added. The callback is so called
  once before and once after each page's fetch, \<open>2 * n\<close> times in total, and the first
  event of the run is the first page's own call before its fetch.
\<close>

theorem progress_called_twice_per_page:
  assumes "\<forall>q. 1 \<le> q \<and> q \<le> n \<longrightarrow> page_succeeds service q"
  shows "fst (search service n d True) =
           concat (map (\<lambda>q.
              [Progress (q - 1) n (int (items_before service q)), Request (start_index q)]
              @ (if q < n \<and> d > 0 then [Sleep d] else [])
              @ [Progress q n (int (items_before service (q + 1)))]) [1..n])
       \<and> length (filter is_progress (fst (search service n d True))) = 2 * nat n"
proof (cases "0 \<le> n")
  case True
  note run = run_of_good_pages [OF True assms, of n d True]
  have e1: "expected_page_trace service n d True = (\<lambda>q.
              [Progress (q - 1) n (int (items_before service q)), Request (start_index q)]
              @ (if q < n \<and> d > 0 then [Sleep d] else [])
              @ [Progress q n (int (items_before service (q + 1)))])"
    by (rule ext) (simp add: expected_page_trace_def)
  have t: "fst (search service n d True) = concat (map (expected_page_trace service n d True) [1..n])"
    by (simp add: search_def run)
  have c: "length (filter is_progress (fst (search service n d True))) = 2 * nat n"
    by (simp add: t progress_of_trace)
  from t c show ?thesis unfolding e1 by simp
next
  case False
  then have "[1..n] = []" by simp
  with False show ?thesis by (simp add: search_def)
qed

theorem progress_called_twice_per_page_witness:
  "fst (search (\<lambda>start. if start = 1
             then Body (JObj [(''items'', JArr [JObj [(''link'', JStr ''a'')],
                                              JObj [(''link'', JStr ''b'')]])])
             else Body (JObj [(''items'', JArr [JObj [(''link'', JStr ''c'')]])])) 2 5 True) =
     [Progress 0 2 0, Request 1, Sleep 5, Progress 1 2 2,
      Progress 1 2 2, Request 11, Progress 2 2 3]
   \<and> length (filter is_progress (fst (search (\<lambda>start. if start = 1
             then Body (JObj [(''items'', JArr [JObj [(''link'', JStr ''a'')],
                                              JObj [(''link'', JStr ''b'')]])])
             else Body (JObj [(''items'', JArr [JObj [(''link'', JStr ''c'')]])])) 2 5 True))) = 4"
proof -
  let ?svc = "\<lambda>start::int. if start = 1
             then Body (JObj [(''items'', JArr [JObj [(''link'', JStr ''a'')],
                                              JObj [(''link'', JStr ''b'')]])])
             else Body (JObj [(''items'', JArr [JObj [(''link'', JStr ''c'')]])])"
  have h: "\<forall>q. 1 \<le> q \<and> q \<le> 2 \<longrightarrow> page_succeeds ?svc q"
    by (simp add: page_succeeds_def)
  note r = progress_called_twice_per_page [of 2 ?svc 5, OF h]
  have rhs: "concat (map (\<lambda>q.
              [Progress (q - 1) 2 (int (items_before ?svc q)), Request (start_index q)]
              @ (if q < 2 \<and> (5::int) > 0 then [Sleep 5] else [])
              @ [Progress q 2 (int (items_before ?svc (q + 1)))]) [1..2]) =
     [Progress 0 2 0, Request 1, Sleep 5, Progress 1 2 2,
      Progress 1 2 2, Request 11, Progress 2 2 3]"
    by code_simp
  from trans [OF r [THEN conjunct1] rhs] r [THEN conjunct2] show ?thesis by simp
qed

text \<open>
  C7 as stated fails: a run of one page that succeeds calls the callback twice, not
  \<open>2 * 1 + 1\<close> times.
\<close>

theorem progress_count_counterexample:
  "page_succeeds (\<lambda>start. Body (JObj [(''items'', JArr [JObj [(''link'', JStr ''a'')]])])) 1
   \<and> fst (search (\<lambda>start. Body (JObj [(''items'', JArr [JObj [(''link'', JStr ''a'')]])])) 1 0 True)
       = [Progress 0 1 0, Request 1, Progress 1 1 1]
   \<and> length (filter is_progress [Progress 0 1 0, Request 1, Progress 1 1 1]) \<noteq> 2 * 1 + 1"
  by code_simp

text \<open>
  C9. Every suspension in a run lasts \<open>delay_seconds\<close>, with \<open>delay_seconds > 0\<close>, and the
  last request before it is the request of a page \<open>p\<close> with \<open>1 \<le> p < max_pages\<close>: no
  suspension follows the last page. With \<open>delay_seconds = 0\<close> the run never suspends.
\<close>

theorem sleep_only_between_pages:
  "(\<forall>pre d post. fst (search service max_pages delay_seconds cb) = pre @ Sleep d # post \<longrightarrow>
      d = delay_seconds \<and> 0 < delay_seconds \<and>
      (\<exists>p. 1 \<le> p \<and> p < max_pages \<and> filter is_request pre \<noteq> [] \<and>
           last (filter is_request pre) = Request (start_index p)))
   \<and> (delay_seconds = 0 \<longrightarrow>
        (\<forall>d. Sleep d \<notin> set (fst (search service max_pages delay_seconds cb))))"
proof (intro conjI allI impI)
  fix pre d post
  assume a: "fst (search service max_pages delay_seconds cb) = pre @ Sleep d # post"
  from sleeps_of_pages [OF a [unfolded search_def]]
  show "d = delay_seconds" and "0 < delay_seconds"
    and "\<exists>p. 1 \<le> p \<and> p < max_pages \<and> filter is_request pre \<noteq> [] \<and>
           last (filter is_request pre) = Request (start_index p)"
    by auto
next
  fix d
  assume z: "delay_seconds = 0"
  show "Sleep d \<notin> set (fst (search service max_pages delay_seconds cb))"
  proof
    assume "Sleep d \<in> set (fst (search service max_pages delay_seconds cb))"
    then obtain pre post
      where "fst (search service max_pages delay_seconds cb) = pre @ Sleep d # post"
      by (auto simp: in_set_conv_decomp)
    from sleeps_of_pages [OF this [unfolded search_def]] z show False by simp
  qed
qed

theorem sleep_only_between_pages_witness:
  "fst (search (\<lambda>start. Body (JObj [(''items'', JArr [JObj [(''link'', JStr ''a'')]])])) 2 5 True)
     = [Progress 0 2 0, Request 1] @ Sleep 5 #
       [Progress 1 2 1, Progress 1 2 1, Request 11, Progress 2 2 2]
   \<and> (\<exists>p. 1 \<le> p \<and> p < 2 \<and>
          last (filter is_request [Progress 0 2 0, Request 1]) = Request (start_index p))
   \<and> (\<forall>d. Sleep d \<notin> set (fst (search
          (\<lambda>start. Body (JObj [(''items'', JArr [JObj [(''link'', JStr ''a'')]])])) 2 0 True)))"
proof -
  let ?svc = "\<lambda>start::int. Body (JObj [(''items'', JArr [JObj [(''link'', JStr ''a'')]])])"
  have tr: "fst (search ?svc 2 5 True)
     = [Progress 0 2 0, Request 1] @ Sleep 5 #
       [Progress 1 2 1, Progress 1 2 1, Request 11, Progress 2 2 2]"
    by code_simp
  from sleep_only_between_pages [of ?svc 2 5 True] tr
  have "\<exists>p. 1 \<le> p \<and> p < 2 \<and>
          last (filter is_request [Progress 0 2 0, Request 1]) = Request (start_index p)"
    by blast
  moreover from sleep_only_between_pages [of ?svc 2 0 True]
  have "\<forall>d. Sleep d \<notin> set (fst (search ?svc 2 0 True))" by blast
  ultimately show ?thesis using tr by blast
qed

end
